theory Spec2Isabelle
  imports Complex_Main "HOL-Library.AList"
begin

section \<open>Python values, exceptions and containers\<close>

text \<open>
  The script \<^verbatim>\<open>visualize_performance.py\<close> parses the text printed by a benchmark
  program and derives speedup and efficiency figures from it.

  Conventions of the embedding:
  \<^item> a Python \<^verbatim>\<open>str\<close> is a \<open>string\<close>; each \<open>char\<close> stands for the code point of the
    same number, so the texts covered are those whose code points are below 256;
  \<^item> a Python \<^verbatim>\<open>int\<close> is an \<open>int\<close>;
  \<^item> a Python \<^verbatim>\<open>float\<close> is a \<open>rat\<close>: the exact value of the decimal literal, and exact
    division. Rounding to a double, infinities and NaN are outside the model;
  \<^item> a \<^verbatim>\<open>dict\<close> is an association list in insertion order with distinct keys,
    read with \<open>map_of\<close> and written with \<open>AList.update\<close>;
  \<^item> an exception is a value \<open>Inl e\<close> of the type \<open>error + 'a\<close>.
\<close>

datatype error = ValueError | IndexError | KeyError | ZeroDivisionError

text \<open>\<^verbatim>\<open>xs[i]\<close> for a non-negative index.\<close>

definition py_index :: "'a list \<Rightarrow> nat \<Rightarrow> error + 'a" where
  "py_index xs i = (if i < length xs then Inr (xs ! i) else Inl IndexError)"

text \<open>\<^verbatim>\<open>d[k]\<close> and \<^verbatim>\<open>d.get(k, default)\<close> on a dict.\<close>

definition py_getitem :: "('k \<times> 'v) list \<Rightarrow> 'k \<Rightarrow> error + 'v" where
  "py_getitem d k = (case map_of d k of None \<Rightarrow> Inl KeyError | Some v \<Rightarrow> Inr v)"

definition dict_get :: "('k \<times> 'v) list \<Rightarrow> 'k \<Rightarrow> 'v \<Rightarrow> 'v" where
  "dict_get d k dflt = (case map_of d k of None \<Rightarrow> dflt | Some v \<Rightarrow> v)"

text \<open>True division \<^verbatim>\<open>a / b\<close>.\<close>

definition py_div :: "rat \<Rightarrow> rat \<Rightarrow> error + rat" where
  "py_div a b = (if b = 0 then Inl ZeroDivisionError else Inr (a / b))"

text \<open>Running a comprehension or a loop body over a list stops at the first exception.\<close>

fun mapM :: "('a \<Rightarrow> error + 'b) \<Rightarrow> 'a list \<Rightarrow> error + 'b list" where
  "mapM f [] = Inr []"
| "mapM f (x # xs) =
     (case f x of
        Inl e \<Rightarrow> Inl e
      | Inr y \<Rightarrow> (case mapM f xs of Inl e \<Rightarrow> Inl e | Inr ys \<Rightarrow> Inr (y # ys)))"

text \<open>\<^verbatim>\<open>enumerate(xs)\<close>.\<close>

definition enumerate_list :: "'a list \<Rightarrow> (nat \<times> 'a) list" where
  "enumerate_list xs = zip [0 ..< length xs] xs"

section \<open>Character classes and number literals\<close>

text \<open>
  \<^verbatim>\<open>\d\<close> and \<^verbatim>\<open>\s\<close> of a \<^verbatim>\<open>str\<close> pattern, on the code points below 256: the decimal
  digits are \<^verbatim>\<open>0\<close> to \<^verbatim>\<open>9\<close>; the white space is 9 to 13, 28 to 32, 133 and 160.
\<close>

definition is_digit :: "char \<Rightarrow> bool" where
  "is_digit c = (let n = (of_char c :: nat) in 48 \<le> n \<and> n \<le> 57)"

definition is_space :: "char \<Rightarrow> bool" where
  "is_space c =
     (let n = (of_char c :: nat)
      in (9 \<le> n \<and> n \<le> 13) \<or> (28 \<le> n \<and> n \<le> 32) \<or> n = 133 \<or> n = 160)"

definition digit_val :: "char \<Rightarrow> nat" where
  "digit_val c = of_char c - 48"

definition dec_val :: "string \<Rightarrow> nat" where
  "dec_val s = foldl (\<lambda>a c. 10 * a + digit_val c) 0 s"

text \<open>
  \<^verbatim>\<open>int(s)\<close> where \<open>s\<close> was captured by \<^verbatim>\<open>(\d+)\<close>: a non-empty run of decimal digits.
  The interpreter's configurable limit on the number of digits is not modelled.
\<close>

definition py_int :: "string \<Rightarrow> int" where
  "py_int s = int (dec_val s)"

text \<open>
  \<^verbatim>\<open>float(s)\<close> where \<open>s\<close> was captured by \<^verbatim>\<open>([\d.]+)\<close>: digits and dots only. Python
  accepts digits with at most one dot and at least one digit (\<^verbatim>\<open>10.0\<close>, \<^verbatim>\<open>5\<close>,
  \<^verbatim>\<open>.5\<close>, \<^verbatim>\<open>5.\<close>) and raises \<^verbatim>\<open>ValueError\<close> on anything else (\<^verbatim>\<open>.\<close>, \<^verbatim>\<open>1.2.3\<close>).
\<close>

definition py_float :: "string \<Rightarrow> error + rat" where
  "py_float s =
     (let ip = takeWhile is_digit s; r = dropWhile is_digit s
      in case r of
           [] \<Rightarrow> if ip = [] then Inl ValueError else Inr (of_nat (dec_val ip))
         | c # fp \<Rightarrow>
             if c = CHR ''.'' \<and> list_all is_digit fp \<and> (ip \<noteq> [] \<or> fp \<noteq> [])
             then Inr (of_nat (dec_val (ip @ fp)) / 10 ^ length fp)
             else Inl ValueError)"

section \<open>The regular expressions\<close>

text \<open>
  The three patterns of \<^verbatim>\<open>parse_output\<close> are sequences of literal characters and of
  greedy repetitions \<^verbatim>\<open>C*\<close> / \<^verbatim>\<open>C+\<close> of one character class, some of them captured.
  \<open>rmatch\<close> is the backtracking matcher of \<^verbatim>\<open>re\<close> on that fragment: a repetition first
  takes the longest run and gives characters back one at a time; the first complete match
  wins. The result is the list of captured groups.
\<close>

datatype cls = Space | Digit | NumChar

fun in_cls :: "cls \<Rightarrow> char \<Rightarrow> bool" where
  "in_cls Space c = is_space c"
| "in_cls Digit c = is_digit c"
| "in_cls NumChar c = (is_digit c \<or> c = CHR ''.'')"

datatype item = Lit char | Rep cls nat bool

function rmatch :: "item list \<Rightarrow> string \<Rightarrow> string list option"
  and rtry :: "cls \<Rightarrow> nat \<Rightarrow> bool \<Rightarrow> item list \<Rightarrow> nat \<Rightarrow> string \<Rightarrow> string list option"
where
  "rmatch [] s = Some []"
| "rmatch (Lit c # its) s =
     (case s of [] \<Rightarrow> None | d # ds \<Rightarrow> if c = d then rmatch its ds else None)"
| "rmatch (Rep cl mn cap # its) s =
     rtry cl mn cap its (length (takeWhile (in_cls cl) s)) s"
| "rtry cl mn cap its k s =
     (if k < mn then None
      else case rmatch its (drop k s) of
             Some gs \<Rightarrow> Some (if cap then take k s # gs else gs)
           | None \<Rightarrow> if k = 0 then None else rtry cl mn cap its (k - 1) s)"
  by pat_completeness auto
termination
  by (relation "measures
        [\<lambda>x. case x of Inl (its, s) \<Rightarrow> 2 * length its | Inr (cl, mn, cap, its, k, s) \<Rightarrow> 2 * length its + 1,
         \<lambda>x. case x of Inl (its, s) \<Rightarrow> 0 | Inr (cl, mn, cap, its, k, s) \<Rightarrow> k]") auto

text \<open>\<^verbatim>\<open>re.match\<close> tries the start of the string only; \<^verbatim>\<open>re.search\<close> tries every
  start position from the left, the end of the string included.\<close>

definition re_match :: "item list \<Rightarrow> string \<Rightarrow> string list option" where
  "re_match p s = rmatch p s"

fun re_search :: "item list \<Rightarrow> string \<Rightarrow> string list option" where
  "re_search p [] = rmatch p []"
| "re_search p (c # cs) =
     (case rmatch p (c # cs) of Some gs \<Rightarrow> Some gs | None \<Rightarrow> re_search p cs)"

text \<open>\<^verbatim>\<open>Matrix size:\s*(\d+)\s*x\s*\d+\<close>\<close>

definition size_re :: "item list" where
  "size_re = map Lit ''Matrix size:'' @
     [Rep Space 0 False, Rep Digit 1 True, Rep Space 0 False, Lit CHR ''x'',
      Rep Space 0 False, Rep Digit 1 False]"

text \<open>\<^verbatim>\<open>Time:\s*([\d.]+)\s*ms\<close>\<close>

definition time_re :: "item list" where
  "time_re = map Lit ''Time:'' @
     [Rep Space 0 False, Rep NumChar 1 True, Rep Space 0 False, Lit CHR ''m'', Lit CHR ''s'']"

text \<open>\<^verbatim>\<open>\s*(\d+)\s+([\d.]+)\s+([\d.]+)\s+([\d.]+)%\<close>\<close>

definition thread_re :: "item list" where
  "thread_re =
     [Rep Space 0 False, Rep Digit 1 True, Rep Space 1 False, Rep NumChar 1 True,
      Rep Space 1 False, Rep NumChar 1 True, Rep Space 1 False, Rep NumChar 1 True,
      Lit CHR ''%'']"

text \<open>\<^verbatim>\<open>'Sequential:' in line\<close>\<close>

definition has_sequential :: "string \<Rightarrow> bool" where
  "has_sequential line = (re_search (map Lit ''Sequential:'') line \<noteq> None)"

text \<open>\<^verbatim>\<open>output.split('\n')\<close>\<close>

fun split_lines :: "string \<Rightarrow> string list" where
  "split_lines [] = [[]]"
| "split_lines (c # cs) =
     (if c = CHR 0x0A then [] # split_lines cs
      else (case split_lines cs of l # ls \<Rightarrow> (c # l) # ls | [] \<Rightarrow> [[c]]))"

section \<open>The dataset and \<^verbatim>\<open>parse_output\<close>\<close>

record dataset =
  sizes :: "int list"
  sequential_times :: "rat list"
  parallel_results :: "(int \<times> (int \<times> rat) list) list"

text \<open>The variables of \<^verbatim>\<open>parse_output\<close> that the loop changes.\<close>

record pstate =
  data :: dataset
  current_size :: "int option"
  seq_time :: "rat option"

definition init_state :: pstate where
  "init_state =
     \<lparr>data = \<lparr>sizes = [], sequential_times = [], parallel_results = []\<rparr>,
      current_size = None, seq_time = None\<rparr>"

text \<open>Lines 48 to 52: the matrix size.\<close>

definition size_step :: "string \<Rightarrow> pstate \<Rightarrow> pstate" where
  "size_step line st =
     (case re_search size_re line of
        None \<Rightarrow> st
      | Some gs \<Rightarrow>
          (let n = py_int (hd gs);
               d = data st;
               d' = (if n \<notin> set (sizes d) then d\<lparr>sizes := sizes d @ [n]\<rparr> else d)
           in st\<lparr>data := d', current_size := Some n\<rparr>))"

text \<open>Lines 57 to 62: the inner loop over \<^verbatim>\<open>range(i, min(i+5, len(lines)))\<close>, given
  as the list of its indices; it stops at the first line that matches.\<close>

fun seq_scan :: "string list \<Rightarrow> nat list \<Rightarrow> pstate \<Rightarrow> error + pstate" where
  "seq_scan lines [] st = Inr st"
| "seq_scan lines (j # js) st =
     (case re_search time_re (lines ! j) of
        None \<Rightarrow> seq_scan lines js st
      | Some gs \<Rightarrow>
          (case py_float (hd gs) of
             Inl e \<Rightarrow> Inl e
           | Inr t \<Rightarrow>
               Inr (st\<lparr>data := (data st)\<lparr>sequential_times := sequential_times (data st) @ [t]\<rparr>,
                       seq_time := Some t\<rparr>)))"

text \<open>Lines 55 to 62: the sequential time.\<close>

definition seq_step :: "string list \<Rightarrow> nat \<Rightarrow> pstate \<Rightarrow> error + pstate" where
  "seq_step lines i st =
     (if has_sequential (lines ! i)
      then seq_scan lines [i ..< min (i + 5) (length lines)] st
      else Inr st)"

text \<open>Lines 70 to 72: \<^verbatim>\<open>parallel_results[threads][current_size] = time_ms\<close>, after
  an empty inner dict has been stored for a new thread count.\<close>

definition store_result ::
  "int \<Rightarrow> int \<Rightarrow> rat \<Rightarrow> (int \<times> (int \<times> rat) list) list \<Rightarrow> error + (int \<times> (int \<times> rat) list) list"
where
  "store_result threads sz t pr =
     (let pr1 = (if threads \<notin> fst ` set pr then AList.update threads [] pr else pr)
      in case py_getitem pr1 threads of
           Inl e \<Rightarrow> Inl e
         | Inr inner \<Rightarrow> Inr (AList.update threads (AList.update sz t inner) pr1))"

text \<open>Lines 65 to 72: a row of the table of parallel results.\<close>

definition row_step :: "string \<Rightarrow> pstate \<Rightarrow> error + pstate" where
  "row_step line st =
     (case re_match thread_re line of
        None \<Rightarrow> Inr st
      | Some gs \<Rightarrow>
          (case current_size st of
             None \<Rightarrow> Inr st
           | Some cur \<Rightarrow>
               (let threads = py_int (gs ! 0)
                in case py_float (gs ! 1) of
                     Inl e \<Rightarrow> Inl e
                   | Inr time_ms \<Rightarrow>
                       (case store_result threads cur time_ms (parallel_results (data st)) of
                          Inl e \<Rightarrow> Inl e
                        | Inr pr \<Rightarrow> Inr (st\<lparr>data := (data st)\<lparr>parallel_results := pr\<rparr>\<rparr>)))))"

text \<open>The body of the \<^verbatim>\<open>while\<close> loop for line \<open>i\<close>.\<close>

definition process_line :: "string list \<Rightarrow> nat \<Rightarrow> pstate \<Rightarrow> error + pstate" where
  "process_line lines i st =
     (case seq_step lines i (size_step (lines ! i) st) of
        Inl e \<Rightarrow> Inl e
      | Inr st' \<Rightarrow> row_step (lines ! i) st')"

text \<open>The loop \<^verbatim>\<open>while i < len(lines)\<close>.\<close>

function parse_loop :: "string list \<Rightarrow> nat \<Rightarrow> pstate \<Rightarrow> error + pstate" where
  "parse_loop lines i st =
     (if i < length lines
      then (case process_line lines i st of
              Inl e \<Rightarrow> Inl e
            | Inr st' \<Rightarrow> parse_loop lines (i + 1) st')
      else Inr st)"
  by pat_completeness auto
termination
  by (relation "measure (\<lambda>(lines, i, st). length lines - i)") auto

definition parse_lines :: "string list \<Rightarrow> error + dataset" where
  "parse_lines lines =
     (case parse_loop lines 0 init_state of Inl e \<Rightarrow> Inl e | Inr st \<Rightarrow> Inr (data st))"

definition parse_output :: "string \<Rightarrow> error + dataset" where
  "parse_output output = parse_lines (split_lines output)"

section \<open>The reports\<close>

text \<open>\<^verbatim>\<open>sorted(parallel_results.keys())\<close>\<close>

definition thread_counts :: "dataset \<Rightarrow> int list" where
  "thread_counts d = sort (map fst (parallel_results d))"

text \<open>
  The expression \<^verbatim>\<open>seq_times[idx] / par_time if par_time > 0 else 0\<close> of lines 124,
  147, 173 and 228. The condition is evaluated first: \<^verbatim>\<open>seq_times[idx]\<close> is read only
  when \<^verbatim>\<open>par_time > 0\<close>.
\<close>

definition speedup_expr :: "rat list \<Rightarrow> nat \<Rightarrow> rat \<Rightarrow> error + rat" where
  "speedup_expr seq_times idx par_time =
     (if par_time > 0
      then (case py_index seq_times idx of Inl e \<Rightarrow> Inl e | Inr s \<Rightarrow> py_div s par_time)
      else Inr 0)"

subsection \<open>\<^verbatim>\<open>print_summary_table\<close>\<close>

text \<open>
  The table is modelled by its contents: one row per size with the size, the sequential
  time and, per thread count, the cell \<^verbatim>\<open>(par_time, speedup)\<close>. The formatting of the
  numbers and the header lines carry no data of their own and are left out.
\<close>

text \<open>Lines 227 and 228: one cell.\<close>

definition table_cell :: "dataset \<Rightarrow> nat \<Rightarrow> int \<Rightarrow> int \<Rightarrow> error + (rat \<times> rat)" where
  "table_cell d idx sz threads =
     (case py_getitem (parallel_results d) threads of
        Inl e \<Rightarrow> Inl e
      | Inr inner \<Rightarrow>
          (let par_time = dict_get inner sz 0
           in case speedup_expr (sequential_times d) idx par_time of
                Inl e \<Rightarrow> Inl e
              | Inr speedup \<Rightarrow> Inr (par_time, speedup)))"

text \<open>Lines 225 to 230: one row; \<^verbatim>\<open>seq_times[idx]\<close> is formatted before the cells.\<close>

definition table_row :: "dataset \<Rightarrow> nat \<times> int \<Rightarrow> error + (int \<times> rat \<times> (rat \<times> rat) list)" where
  "table_row d p =
     (case p of (idx, sz) \<Rightarrow>
        (case py_index (sequential_times d) idx of
           Inl e \<Rightarrow> Inl e
         | Inr s \<Rightarrow>
             (case mapM (table_cell d idx sz) (thread_counts d) of
                Inl e \<Rightarrow> Inl e
              | Inr cells \<Rightarrow> Inr (sz, s, cells))))"

definition print_summary_table :: "dataset \<Rightarrow> error + (int \<times> rat \<times> (rat \<times> rat) list) list" where
  "print_summary_table d = mapM (table_row d) (enumerate_list (sizes d))"

subsection \<open>\<^verbatim>\<open>create_visualizations\<close>\<close>

text \<open>
  The function is modelled by the four collections of numbers it computes and hands to the
  plotting library; the calls of the plotting library itself are left out.
\<close>

record charts =
  bar_times :: "rat list list"
  speedup_lines :: "rat list list"
  efficiency_lines :: "rat list list"
  speedup_matrix :: "rat list list"

text \<open>Line 103: the bar heights of one thread count.\<close>

definition bar_series :: "dataset \<Rightarrow> int \<Rightarrow> error + rat list" where
  "bar_series d threads =
     (case py_getitem (parallel_results d) threads of
        Inl e \<Rightarrow> Inl e
      | Inr inner \<Rightarrow> Inr (map (\<lambda>sz. dict_get inner sz 0) (sizes d)))"

text \<open>Lines 123 and 124 (and 146 and 147, 172 and 173): the speedup of one pair.\<close>

definition chart_speedup :: "dataset \<Rightarrow> nat \<Rightarrow> int \<Rightarrow> int \<Rightarrow> error + rat" where
  "chart_speedup d idx sz threads =
     (case py_getitem (parallel_results d) threads of
        Inl e \<Rightarrow> Inl e
      | Inr inner \<Rightarrow> speedup_expr (sequential_times d) idx (dict_get inner sz 1))"

text \<open>Lines 146 to 148: the efficiency of one pair.\<close>

definition chart_efficiency :: "dataset \<Rightarrow> nat \<Rightarrow> int \<Rightarrow> int \<Rightarrow> error + rat" where
  "chart_efficiency d idx sz threads =
     (case chart_speedup d idx sz threads of
        Inl e \<Rightarrow> Inl e
      | Inr speedup \<Rightarrow>
          (case py_div speedup (of_int threads) of
             Inl e \<Rightarrow> Inl e
           | Inr q \<Rightarrow> Inr (q * 100)))"

text \<open>Lines 120 to 125, 143 to 149 and 169 to 175: the nested loops over the sizes and
  the thread counts.\<close>

definition per_pair ::
  "(dataset \<Rightarrow> nat \<Rightarrow> int \<Rightarrow> int \<Rightarrow> error + rat) \<Rightarrow> dataset \<Rightarrow> error + rat list list"
where
  "per_pair f d =
     mapM (\<lambda>p. case p of (idx, sz) \<Rightarrow> mapM (f d idx sz) (thread_counts d))
       (enumerate_list (sizes d))"

definition create_visualizations :: "dataset \<Rightarrow> error + charts" where
  "create_visualizations d =
     (case mapM (bar_series d) (thread_counts d) of
        Inl e \<Rightarrow> Inl e
      | Inr bars \<Rightarrow>
          (case per_pair chart_speedup d of
             Inl e \<Rightarrow> Inl e
           | Inr sp \<Rightarrow>
               (case per_pair chart_efficiency d of
                  Inl e \<Rightarrow> Inl e
                | Inr ef \<Rightarrow>
                    (case per_pair chart_speedup d of
                       Inl e \<Rightarrow> Inl e
                     | Inr hm \<Rightarrow>
                         Inr \<lparr>bar_times = bars, speedup_lines = sp,
                              efficiency_lines = ef, speedup_matrix = hm\<rparr>))))"

subsection \<open>\<^verbatim>\<open>main\<close>\<close>

text \<open>
  \<^verbatim>\<open>main\<close> from line 248 on, with the text returned by \<^verbatim>\<open>compile_and_run_parallel\<close>
  as its argument. The result is the list of what was put out and the exception that
  ended the run, if any: \<^verbatim>\<open>main\<close> catches \<^verbatim>\<open>CalledProcessError\<close> and
  \<^verbatim>\<open>FileNotFoundError\<close> only, so the exceptions of this model leave it. What a call
  had printed before it raised is not recorded.
\<close>

datatype event =
    Print string
  | SummaryTable "(int \<times> rat \<times> (rat \<times> rat) list) list"
  | Visualizations charts

definition main :: "string \<Rightarrow> event list \<times> error option" where
  "main output =
     (case parse_output output of
        Inl e \<Rightarrow> ([], Some e)
      | Inr d \<Rightarrow>
          if sizes d = []
          then ([Print ''Error: Could not parse program output'',
                 Print ''Raw output:'',
                 Print output], None)
          else (case print_summary_table d of
                  Inl e \<Rightarrow> ([], Some e)
                | Inr rows \<Rightarrow>
                    (case create_visualizations d of
                       Inl e \<Rightarrow>
                         ([SummaryTable rows, Print (CHR 0x0A # ''Generating visualizations...'')], Some e)
                     | Inr ch \<Rightarrow>
                         ([SummaryTable rows, Print (CHR 0x0A # ''Generating visualizations...''),
                           Visualizations ch], None))))"

section \<open>Notions used in the statements\<close>

text \<open>The size a line announces: group 1 of the first match of the size pattern.\<close>

definition size_header :: "string \<Rightarrow> int option" where
  "size_header line = map_option (\<lambda>gs. py_int (hd gs)) (re_search size_re line)"

text \<open>The sizes announced by the lines of the input, in input order.\<close>

definition header_sizes :: "string list \<Rightarrow> int list" where
  "header_sizes lines = List.map_filter size_header lines"

text \<open>Lines 51 and 52 on the list of sizes alone.\<close>

definition add_size :: "int \<Rightarrow> int list \<Rightarrow> int list" where
  "add_size n xs = (if n \<in> set xs then xs else xs @ [n])"

text \<open>The time a line holds: \<^verbatim>\<open>float\<close> of group 1 of the first match of the time
  pattern, an exception if the conversion raises.\<close>

definition time_value :: "string \<Rightarrow> (error + rat) option" where
  "time_value line = map_option (\<lambda>gs. py_float (hd gs)) (re_search time_re line)"

text \<open>The time belonging to line \<open>i\<close> when it holds \<^verbatim>\<open>Sequential:\<close>: that of the first
  line with a time among the five lines that start at line \<open>i\<close> itself.\<close>

definition window_time :: "string list \<Rightarrow> nat \<Rightarrow> (error + rat) option" where
  "window_time lines i =
     (if has_sequential (lines ! i)
      then (case List.find (\<lambda>l. time_value l \<noteq> None) (take 5 (drop i lines)) of
              None \<Rightarrow> None
            | Some l \<Rightarrow> time_value l)
      else None)"

text \<open>The times of all lines with \<^verbatim>\<open>Sequential:\<close>, in input order.\<close>

definition timed_markers :: "string list \<Rightarrow> (error + rat) list" where
  "timed_markers lines = List.map_filter (window_time lines) [0 ..< length lines]"

text \<open>Two loop states that agree on everything but the sequential times.\<close>

definition same_tables :: "pstate \<Rightarrow> pstate \<Rightarrow> bool" where
  "same_tables a b =
     (sizes (data a) = sizes (data b) \<and> current_size a = current_size b \<and>
      parallel_results (data a) = parallel_results (data b))"

section \<open>Properties of the parsing loop\<close>

lemma size_step_None: "size_header l = None \<Longrightarrow> size_step l st = st"
  by (simp add: size_step_def size_header_def)

lemma size_step_Some:
  "size_header l = Some n \<Longrightarrow>
   size_step l st = st\<lparr>data := (if n \<in> set (sizes (data st)) then data st else (data st)\<lparr>sizes := sizes (data st) @ [n]\<rparr>),
                       current_size := Some n\<rparr>"
  by (auto simp add: size_step_def size_header_def Let_def)

lemma seq_scan_keeps:
  "seq_scan lines js st = Inr st' \<Longrightarrow>
   sizes (data st') = sizes (data st) \<and> current_size st' = current_size st \<and>
   parallel_results (data st') = parallel_results (data st)"
  by (induction js) (auto split: option.splits sum.splits)

lemma seq_step_keeps:
  "seq_step lines i st = Inr st' \<Longrightarrow>
   sizes (data st') = sizes (data st) \<and> current_size st' = current_size st \<and>
   parallel_results (data st') = parallel_results (data st)"
  unfolding seq_step_def using seq_scan_keeps by (auto split: if_splits)

lemma row_step_keeps:
  "row_step l st = Inr st' \<Longrightarrow>
   sizes (data st') = sizes (data st) \<and> current_size st' = current_size st \<and>
   sequential_times (data st') = sequential_times (data st) \<and> seq_time st' = seq_time st"
  by (auto simp: row_step_def Let_def split: option.splits sum.splits)

lemma process_line_sizes:
  assumes "process_line lines i st = Inr st'"
  shows "sizes (data st') = sizes (data (size_step (lines ! i) st))"
    and "current_size st' = current_size (size_step (lines ! i) st)"
  using assms seq_step_keeps row_step_keeps
  by (auto simp: process_line_def split: sum.splits) 

lemma parse_loop_unfold:
  "i < length lines \<Longrightarrow> parse_loop lines i st =
     (case process_line lines i st of Inl e \<Rightarrow> Inl e | Inr st' \<Rightarrow> parse_loop lines (Suc i) st')"
  by (subst parse_loop.simps) (simp split: sum.splits)

lemma parse_loop_end: "length lines \<le> i \<Longrightarrow> parse_loop lines i st = Inr st"
  by (subst parse_loop.simps) simp


declare parse_loop.simps [simp del]

lemma parse_loop_step:
  assumes "parse_loop lines i st = Inr st'" and "i < length lines"
  obtains st1 where "process_line lines i st = Inr st1" and "parse_loop lines (Suc i) st1 = Inr st'"
  using assms by (auto simp: parse_loop_unfold split: sum.splits)

lemma header_sizes_Cons:
  "header_sizes (l # ls) = (case size_header l of None \<Rightarrow> header_sizes ls | Some n \<Rightarrow> n # header_sizes ls)"
  by (simp add: header_sizes_def List.map_filter_simps split: option.splits)

lemma header_sizes_Nil: "header_sizes [] = []"
  by (simp add: header_sizes_def List.map_filter_simps)

lemma remdups_snoc: "remdups (zs @ [x]) = remdups [z\<leftarrow>zs. z \<noteq> x] @ [x]"
  by (induction zs) auto

lemma fold_add_size:
  "fold add_size hs acc = acc @ rev (remdups (rev [x\<leftarrow>hs. x \<notin> set acc]))"
proof (induction hs arbitrary: acc)
  case Nil
  then show ?case by simp
next
  case (Cons x hs)
  show ?case
  proof (cases "x \<in> set acc")
    case True
    then show ?thesis using Cons.IH [of acc] by (simp add: add_size_def)
  next
    case False
    let ?ys = "[y\<leftarrow>hs. y \<notin> set acc]"
    have f: "[y\<leftarrow>hs. y \<notin> set (acc @ [x])] = [y\<leftarrow>?ys. y \<noteq> x]"
      by (induction hs) auto
    have "rev (remdups (rev (x # ?ys))) = rev (remdups ([z\<leftarrow>rev ?ys. z \<noteq> x]) @ [x])"
      by (simp add: remdups_snoc)
    also have "\<dots> = x # rev (remdups (rev [y\<leftarrow>?ys. y \<noteq> x]))"
      by (simp add: rev_filter)
    finally have r: "rev (remdups (rev (x # ?ys))) = x # rev (remdups (rev [y\<leftarrow>?ys. y \<noteq> x]))" .
    have "fold add_size (x # hs) acc = fold add_size hs (acc @ [x])"
      using False by (simp add: add_size_def)
    also have "\<dots> = (acc @ [x]) @ rev (remdups (rev [y\<leftarrow>?ys. y \<noteq> x]))"
      using Cons.IH [of "acc @ [x]"] f by simp
    also have "\<dots> = acc @ rev (remdups (rev (x # ?ys)))"
      using r by simp
    also have "x # ?ys = [y\<leftarrow>x # hs. y \<notin> set acc]"
      using False by simp
    finally show ?thesis .
  qed
qed

lemma parse_loop_sizes:
  "parse_loop lines i st = Inr st' \<Longrightarrow>
   sizes (data st') = fold add_size (header_sizes (drop i lines)) (sizes (data st)) \<and>
   current_size st' =
     (if header_sizes (drop i lines) = [] then current_size st
      else Some (last (header_sizes (drop i lines))))"
proof (induction lines i st rule: parse_loop.induct)
  case (1 lines i st)
  show ?case
  proof (cases "i < length lines")
    case False
    then show ?thesis using "1.prems" by (simp add: parse_loop_end header_sizes_Nil)
  next
    case True
    from "1.prems" True obtain st1 where
      pl: "process_line lines i st = Inr st1" and rest: "parse_loop lines (Suc i) st1 = Inr st'"
      by (rule parse_loop_step)
    have ih: "sizes (data st') = fold add_size (header_sizes (drop (Suc i) lines)) (sizes (data st1)) \<and>
      current_size st' = (if header_sizes (drop (Suc i) lines) = [] then current_size st1
        else Some (last (header_sizes (drop (Suc i) lines))))"
      using "1.IH" [OF True pl] rest by simp
    have dr: "drop i lines = lines ! i # drop (Suc i) lines"
      using True by (simp add: Cons_nth_drop_Suc)
    show ?thesis
    proof (cases "size_header (lines ! i)")
      case None
      then show ?thesis using ih process_line_sizes [OF pl]
        by (simp add: dr header_sizes_Cons size_step_None)
    next
      case (Some n)
      have s1: "sizes (data st1) = add_size n (sizes (data st))"
        using process_line_sizes(1) [OF pl] Some by (simp add: size_step_Some add_size_def)
      have c1: "current_size st1 = Some n"
        using process_line_sizes(2) [OF pl] Some by (simp add: size_step_Some)
      show ?thesis using ih s1 c1 Some
        by (simp add: dr header_sizes_Cons)
    qed
  qed
qed

lemma window_indices:
  "map ((!) xs) [i ..< min (i + n) (length xs)] = take n (drop i xs)"
  by (rule nth_equalityI) (auto simp: min_def split: if_splits)

lemma seq_scan_find:
  "seq_scan lines js st = Inr st' \<Longrightarrow>
   map Inr (sequential_times (data st')) =
     map Inr (sequential_times (data st)) @
     (case List.find (\<lambda>l. time_value l \<noteq> None) (map ((!) lines) js) of
        None \<Rightarrow> []
      | Some l \<Rightarrow> (case time_value l of None \<Rightarrow> [] | Some r \<Rightarrow> [r]))"
  by (induction js) (auto simp: time_value_def split: option.splits sum.splits)

lemma seq_step_window:
  assumes "seq_step lines i st = Inr st'"
  shows "map Inr (sequential_times (data st')) =
     map Inr (sequential_times (data st)) @
     (case window_time lines i of None \<Rightarrow> [] | Some r \<Rightarrow> [r])"
proof (cases "has_sequential (lines ! i)")
  case False
  then show ?thesis using assms by (simp add: seq_step_def window_time_def)
next
  case True
  then have "seq_scan lines [i ..< min (i + 5) (length lines)] st = Inr st'"
    using assms by (simp add: seq_step_def)
  from seq_scan_find [OF this] True show ?thesis
    by (simp add: window_indices window_time_def split: option.splits)
qed

lemma size_step_times: "sequential_times (data (size_step l st)) = sequential_times (data st)"
  by (simp add: size_step_def Let_def split: option.splits)

lemma process_line_times:
  assumes "process_line lines i st = Inr st'"
  shows "map Inr (sequential_times (data st')) =
     map Inr (sequential_times (data st)) @
     (case window_time lines i of None \<Rightarrow> [] | Some r \<Rightarrow> [r])"
proof -
  from assms obtain st1 where
    s: "seq_step lines i (size_step (lines ! i) st) = Inr st1" and r: "row_step (lines ! i) st1 = Inr st'"
    by (auto simp: process_line_def split: sum.splits)
  show ?thesis using seq_step_window [OF s] row_step_keeps [OF r]
    by (simp add: size_step_times)
qed

lemma map_filter_upt_Cons:
  "i < n \<Longrightarrow> List.map_filter f [i ..< n] =
     (case f i of None \<Rightarrow> [] | Some r \<Rightarrow> [r]) @ List.map_filter f [Suc i ..< n]"
  by (simp add: upt_conv_Cons List.map_filter_simps split: option.splits)

lemma parse_loop_times:
  "parse_loop lines i st = Inr st' \<Longrightarrow>
   map Inr (sequential_times (data st')) =
     map Inr (sequential_times (data st)) @ List.map_filter (window_time lines) [i ..< length lines]"
proof (induction lines i st rule: parse_loop.induct)
  case (1 lines i st)
  show ?case
  proof (cases "i < length lines")
    case False
    then show ?thesis using "1.prems" by (simp add: parse_loop_end List.map_filter_simps)
  next
    case True
    from "1.prems" True obtain st1 where
      pl: "process_line lines i st = Inr st1" and rest: "parse_loop lines (Suc i) st1 = Inr st'"
      by (rule parse_loop_step)
    have "map Inr (sequential_times (data st')) =
      map Inr (sequential_times (data st1)) @ List.map_filter (window_time lines) [Suc i ..< length lines]"
      using "1.IH" [OF True pl] rest by simp
    then show ?thesis using process_line_times [OF pl] True
      by (simp add: map_filter_upt_Cons)
  qed
qed


lemma size_step_sim: "same_tables a b \<Longrightarrow> same_tables (size_step l a) (size_step l b)"
  by (auto simp: same_tables_def size_step_def Let_def split: option.splits)

lemma seq_scan_sim:
  "seq_scan lines js a = Inr a' \<Longrightarrow> same_tables a b \<Longrightarrow>
   \<exists>b'. seq_scan lines js b = Inr b' \<and> same_tables a' b'"
  by (induction js) (auto simp: same_tables_def split: option.splits sum.splits)

lemma seq_step_sim:
  "seq_step lines i a = Inr a' \<Longrightarrow> same_tables a b \<Longrightarrow>
   \<exists>b'. seq_step lines i b = Inr b' \<and> same_tables a' b'"
  unfolding seq_step_def using seq_scan_sim by (auto split: if_splits)

lemma row_step_sim:
  "row_step l a = Inr a' \<Longrightarrow> same_tables a b \<Longrightarrow>
   \<exists>b'. row_step l b = Inr b' \<and> same_tables a' b'"
  by (auto simp: row_step_def same_tables_def Let_def split: option.splits sum.splits)

lemma process_line_sim:
  assumes "process_line lines i a = Inr a'" and "same_tables a b"
  shows "\<exists>b'. process_line lines i b = Inr b' \<and> same_tables a' b'"
proof -
  from assms(1) obtain a1 where
    s: "seq_step lines i (size_step (lines ! i) a) = Inr a1" and r: "row_step (lines ! i) a1 = Inr a'"
    by (auto simp: process_line_def split: sum.splits)
  from seq_step_sim [OF s size_step_sim [OF assms(2)]] obtain b1 where
    s': "seq_step lines i (size_step (lines ! i) b) = Inr b1" and t1: "same_tables a1 b1"
    by blast
  from row_step_sim [OF r t1] obtain b' where
    "row_step (lines ! i) b1 = Inr b'" and "same_tables a' b'"
    by blast
  then show ?thesis using s' by (auto simp: process_line_def)
qed

lemma parse_loop_sim:
  "parse_loop lines i a = Inr a' \<Longrightarrow> same_tables a b \<Longrightarrow>
   \<exists>b'. parse_loop lines i b = Inr b' \<and> same_tables a' b'"
proof (induction lines i a arbitrary: b rule: parse_loop.induct)
  case (1 lines i a)
  show ?case
  proof (cases "i < length lines")
    case False
    then show ?thesis using "1.prems" by (auto simp: parse_loop_end)
  next
    case True
    from "1.prems"(1) True obtain a1 where
      pl: "process_line lines i a = Inr a1" and rest: "parse_loop lines (Suc i) a1 = Inr a'"
      by (rule parse_loop_step)
    from process_line_sim [OF pl "1.prems"(2)] obtain b1 where
      pl': "process_line lines i b = Inr b1" and t1: "same_tables a1 b1"
      by blast
    from "1.IH" [OF True pl _ t1] rest obtain b' where
      "parse_loop lines (Suc i) b1 = Inr b'" and "same_tables a' b'"
      by auto
    then show ?thesis using pl' True by (auto simp: parse_loop_unfold)
  qed
qed

lemma row_step_no_size: "current_size st = None \<Longrightarrow> row_step l st = Inr st"
  by (simp add: row_step_def split: option.splits)

lemma process_line_no_header:
  assumes "process_line lines i st = Inr st'" and "size_header (lines ! i) = None"
    and "current_size st = None"
  shows "same_tables st' st"
proof -
  from assms(1,2) obtain st1 where
    s: "seq_step lines i st = Inr st1" and r: "row_step (lines ! i) st1 = Inr st'"
    by (auto simp: process_line_def size_step_None split: sum.splits)
  have k: "sizes (data st1) = sizes (data st) \<and> current_size st1 = current_size st \<and>
    parallel_results (data st1) = parallel_results (data st)"
    using seq_step_keeps [OF s] .
  then have "row_step (lines ! i) st1 = Inr st1"
    using assms(3) by (simp add: row_step_no_size)
  then have "st' = st1" using r by simp
  then show ?thesis using k by (simp add: same_tables_def)
qed

lemma parse_loop_skip:
  "k \<le> length lines \<Longrightarrow> \<forall>j<k. size_header (lines ! j) = None \<Longrightarrow>
   parse_loop lines 0 st = Inr st' \<Longrightarrow> current_size st = None \<Longrightarrow>
   \<exists>stk. parse_loop lines k stk = Inr st' \<and> same_tables stk st"
proof (induction k)
  case 0
  then show ?case by (auto simp: same_tables_def)
next
  case (Suc k)
  then obtain stk where
    lk: "parse_loop lines k stk = Inr st'" and tk: "same_tables stk st"
    by auto
  from Suc.prems(1) have kl: "k < length lines" by simp
  from lk kl obtain st1 where
    pl: "process_line lines k stk = Inr st1" and rest: "parse_loop lines (Suc k) st1 = Inr st'"
    by (rule parse_loop_step)
  have "current_size stk = None" using tk Suc.prems(4) by (simp add: same_tables_def)
  from process_line_no_header [OF pl _ this] Suc.prems(2)
  have "same_tables st1 stk" by simp
  then have "same_tables st1 st" using tk by (simp add: same_tables_def)
  then show ?case using rest by blast
qed

lemma seq_scan_cong:
  "map ((!) lines) js = map ((!) lines') js' \<Longrightarrow> seq_scan lines js st = seq_scan lines' js' st"
proof (induction js arbitrary: js')
  case Nil
  then show ?case by simp
next
  case (Cons j js)
  then obtain j' js'' where "js' = j' # js''" by (cases js') auto
  then show ?case using Cons by (auto split: option.splits)
qed

lemma process_line_shift:
  assumes "i < length ls"
  shows "process_line (pre @ ls) (length pre + i) st = process_line ls i st"
proof -
  have n: "(pre @ ls) ! (length pre + i) = ls ! i" by simp
  have "map ((!) (pre @ ls)) [length pre + i ..< min (length pre + i + 5) (length (pre @ ls))]
      = take 5 (drop (length pre + i) (pre @ ls))"
    by (rule window_indices)
  also have "\<dots> = take 5 (drop i ls)" by simp
  also have "\<dots> = map ((!) ls) [i ..< min (i + 5) (length ls)]"
    by (rule window_indices [symmetric])
  finally have "seq_scan (pre @ ls) [length pre + i ..< min (length pre + i + 5) (length (pre @ ls))] s
      = seq_scan ls [i ..< min (i + 5) (length ls)] s" for s
    by (rule seq_scan_cong)
  then have "seq_step (pre @ ls) (length pre + i) s = seq_step ls i s" for s
    unfolding seq_step_def n by simp
  then show ?thesis unfolding process_line_def n by simp
qed

lemma parse_loop_shift:
  "parse_loop (pre @ ls) (length pre + i) st = parse_loop ls i st"
proof (induction ls i st rule: parse_loop.induct)
  case (1 ls i st)
  show ?case
  proof (cases "i < length ls")
    case False
    then show ?thesis by (simp add: parse_loop_end)
  next
    case True
    have "parse_loop (pre @ ls) (length pre + i) st =
      (case process_line ls i st of Inl e \<Rightarrow> Inl e
       | Inr st' \<Rightarrow> parse_loop (pre @ ls) (Suc (length pre + i)) st')"
      using True by (simp add: parse_loop_unfold process_line_shift)
    also have "\<dots> = (case process_line ls i st of Inl e \<Rightarrow> Inl e
       | Inr st' \<Rightarrow> parse_loop ls (Suc i) st')"
      using "1.IH" [OF True] by (auto split: sum.splits)
    finally show ?thesis using True by (simp add: parse_loop_unfold)
  qed
qed

lemma header_sizes_none: "\<forall>l \<in> set ls. size_header l = None \<Longrightarrow> header_sizes ls = []"
  by (induction ls) (simp_all add: header_sizes_Nil header_sizes_Cons)

lemma unclassified_line_ignored:
  assumes "size_header (lines ! i) = None" and "\<not> has_sequential (lines ! i)"
    and "re_match thread_re (lines ! i) = None"
  shows "process_line lines i st = Inr st"
  using assms by (simp add: process_line_def size_step_None seq_step_def row_step_def)

section \<open>Properties of the reports\<close>

lemma mapM_Inr: "(\<And>x. x \<in> set xs \<Longrightarrow> \<exists>y. f x = Inr y) \<Longrightarrow> \<exists>ys. mapM f xs = Inr ys"
proof (induction xs)
  case Nil
  then show ?case by simp
next
  case (Cons x xs)
  then obtain y where "f x = Inr y" by auto
  moreover from Cons obtain ys where "mapM f xs = Inr ys" by auto
  ultimately show ?case by simp
qed

lemma mapM_Inl_elem: "mapM f xs = Inl e \<Longrightarrow> \<exists>x \<in> set xs. f x = Inl e"
  by (induction xs) (auto split: sum.splits)

lemma mapM_fails: "x \<in> set xs \<Longrightarrow> f x = Inl e \<Longrightarrow> \<exists>e'. mapM f xs = Inl e'"
  by (induction xs) (auto split: sum.splits)

lemma mapM_error:
  assumes "x \<in> set xs" and "f x = Inl e0"
    and "\<And>y e. y \<in> set xs \<Longrightarrow> f y = Inl e \<Longrightarrow> e = E"
  shows "mapM f xs = Inl E"
proof -
  from mapM_fails [of x xs f e0] assms(1,2) obtain e' where e': "mapM f xs = Inl e'" by blast
  from mapM_Inl_elem [OF e'] assms(3) have "e' = E" by blast
  then show ?thesis using e' by simp
qed

lemma thread_counts_iff:
  "t \<in> set (thread_counts d) \<longleftrightarrow> (\<exists>inner. map_of (parallel_results d) t = Some inner)"
proof -
  have "t \<in> set (thread_counts d) \<longleftrightarrow> map_of (parallel_results d) t \<noteq> None"
    by (simp add: thread_counts_def map_of_eq_None_iff)
  then show ?thesis by auto
qed

lemma thread_counts_getitem:
  "t \<in> set (thread_counts d) \<Longrightarrow> \<exists>inner. py_getitem (parallel_results d) t = Inr inner"
  by (auto simp: thread_counts_iff py_getitem_def)

lemma speedup_expr_error: "speedup_expr s idx p = Inl e \<Longrightarrow> e = IndexError"
  by (auto simp: speedup_expr_def py_index_def py_div_def split: if_splits)

lemma speedup_expr_missing:
  "length s \<le> idx \<Longrightarrow> 0 < p \<Longrightarrow> speedup_expr s idx p = Inl IndexError"
  by (simp add: speedup_expr_def py_index_def)

lemma table_cell_error:
  "t \<in> set (thread_counts d) \<Longrightarrow> table_cell d idx sz t = Inl e \<Longrightarrow> e = IndexError"
  using thread_counts_getitem [of t d] speedup_expr_error
  by (auto simp: table_cell_def Let_def split: sum.splits)

lemma table_row_error: "table_row d p = Inl e \<Longrightarrow> e = IndexError"
proof (cases p)
  case (Pair idx sz)
  assume a: "table_row d p = Inl e"
  show ?thesis
  proof (cases "py_index (sequential_times d) idx")
    case (Inl e')
    then show ?thesis using a Pair by (auto simp: table_row_def py_index_def split: if_splits)
  next
    case (Inr s)
    then have "mapM (table_cell d idx sz) (thread_counts d) = Inl e"
      using a Pair by (auto simp: table_row_def split: sum.splits)
    from mapM_Inl_elem [OF this] table_cell_error show ?thesis by blast
  qed
qed

lemma enumerate_list_mem: "i < length xs \<Longrightarrow> (i, xs ! i) \<in> set (enumerate_list xs)"
  by (auto simp: enumerate_list_def set_zip intro!: exI [of _ i])

lemma chart_speedup_error:
  "t \<in> set (thread_counts d) \<Longrightarrow> chart_speedup d idx sz t = Inl e \<Longrightarrow> e = IndexError"
  using thread_counts_getitem [of t d] speedup_expr_error
  by (auto simp: chart_speedup_def split: sum.splits)

lemma bars_ok: "\<exists>bars. mapM (bar_series d) (thread_counts d) = Inr bars"
proof (rule mapM_Inr)
  fix t assume "t \<in> set (thread_counts d)"
  from thread_counts_getitem [OF this] show "\<exists>y. bar_series d t = Inr y"
    by (auto simp: bar_series_def)
qed

lemma per_pair_speedup_error: "per_pair chart_speedup d = Inl e \<Longrightarrow> e = IndexError"
proof -
  assume "per_pair chart_speedup d = Inl e"
  from mapM_Inl_elem [OF this [unfolded per_pair_def]] obtain idx sz where
    "mapM (chart_speedup d idx sz) (thread_counts d) = Inl e" by auto
  from mapM_Inl_elem [OF this] chart_speedup_error show ?thesis by blast
qed

lemma absent_pair_values:
  assumes "map_of (parallel_results d) threads = Some inner" and "map_of inner sz = None"
    and "idx < length (sequential_times d)"
  shows "table_cell d idx sz threads = Inr (0, 0)"
    and "chart_speedup d idx sz threads = Inr (sequential_times d ! idx)"
  using assms
  by (simp_all add: table_cell_def chart_speedup_def py_getitem_def dict_get_def
      speedup_expr_def py_index_def py_div_def)












lemma no_size_diagnostic:
  assumes "\<forall>l \<in> set (split_lines output). size_header l = None"
    and "parse_output output = Inr d"
  shows "sizes d = [] \<and>
         main output = ([Print ''Error: Could not parse program output'',
                         Print ''Raw output:'', Print output], None)"
proof -
  from assms(2) obtain st where
    st: "parse_loop (split_lines output) 0 init_state = Inr st" and d: "d = data st"
    by (auto simp: parse_output_def parse_lines_def split: sum.splits)
  have "sizes d = []"
    using parse_loop_sizes [OF st] header_sizes_none [OF assms(1)] d
    by (simp add: init_state_def)
  then show ?thesis using assms(2) by (simp add: main_def)
qed

section \<open>The claims\<close>

subsection \<open>Scenario A\<close>

text \<open>
  C6: for the input with the lines \<^verbatim>\<open>Matrix size: 4 x 4\<close>,
  \<^verbatim>\<open>Sequential: ... Time: 10.0 ms\<close> and \<^verbatim>\<open>  2   5.0   2.00   100.0%\<close>, parsing yields the
  sizes \<open>[4]\<close>, the sequential times \<open>[10.0]\<close> and the parallel time \<open>5.0\<close> for 2 threads
  and size 4; the speedup of the pair (4, 2) is \<open>2.0\<close>, in the summary table and in the
  charts, and its efficiency is \<open>100.0\<close>.
\<close>

theorem scenario_A:
  "parse_output (''Matrix size: 4 x 4'' @ [CHR 0x0A] @ ''Sequential: ... Time: 10.0 ms'' @
      [CHR 0x0A] @ ''  2   5.0   2.00   100.0%'')
     = Inr \<lparr>sizes = [4], sequential_times = [10], parallel_results = [(2, [(4, 5)])]\<rparr>
   \<and> print_summary_table
        \<lparr>sizes = [4], sequential_times = [10], parallel_results = [(2, [(4, 5)])]\<rparr>
     = Inr [(4, 10, [(5, 2)])]
   \<and> create_visualizations
        \<lparr>sizes = [4], sequential_times = [10], parallel_results = [(2, [(4, 5)])]\<rparr>
     = Inr \<lparr>bar_times = [[5]], speedup_lines = [[2]], efficiency_lines = [[100]],
            speedup_matrix = [[2]]\<rparr>"
  by code_simp

subsection \<open>The list of sizes\<close>

text \<open>
  C10: when the loop of \<^verbatim>\<open>parse_output\<close> ends, the list of sizes has no duplicates and
  holds the sizes announced by the lines of the input in the order in which each was seen
  first (\<open>remdups\<close> keeps the last occurrence of each element, so between the two
  reversals it keeps the first); the current size is the one announced last, also when
  that size was already known.
\<close>

theorem sizes_first_seen:
  assumes "parse_loop lines 0 init_state = Inr st"
  shows "distinct (sizes (data st)) \<and>
         sizes (data st) = rev (remdups (rev (header_sizes lines))) \<and>
         current_size st =
           (if header_sizes lines = [] then None else Some (last (header_sizes lines)))"
proof -
  have "sizes (data st) = rev (remdups (rev (header_sizes lines)))"
    using parse_loop_sizes [OF assms] by (simp add: fold_add_size init_state_def)
  moreover have "current_size st =
      (if header_sizes lines = [] then None else Some (last (header_sizes lines)))"
    using parse_loop_sizes [OF assms] by (simp add: init_state_def)
  ultimately show ?thesis by simp
qed

theorem sizes_first_seen_witness:
  "parse_loop [''Matrix size: 8 x 8'', ''Matrix size: 4 x 4'', ''Matrix size: 8 x 8''] 0 init_state
     = Inr \<lparr>data = \<lparr>sizes = [8, 4], sequential_times = [], parallel_results = []\<rparr>,
            current_size = Some 8, seq_time = None\<rparr>
   \<and> header_sizes [''Matrix size: 8 x 8'', ''Matrix size: 4 x 4'', ''Matrix size: 8 x 8'']
     = [8, 4, 8]
   \<and> distinct [8, 4 :: int]
   \<and> [8, 4] = rev (remdups (rev [8, 4, 8 :: int]))"
proof -
  let ?ls = "[''Matrix size: 8 x 8'', ''Matrix size: 4 x 4'', ''Matrix size: 8 x 8'']"
  let ?st = "\<lparr>data = \<lparr>sizes = [8, 4], sequential_times = [], parallel_results = []\<rparr>,
            current_size = Some 8, seq_time = None\<rparr>"
  have h: "parse_loop ?ls 0 init_state = Inr ?st" by code_simp
  have hs: "header_sizes ?ls = [8, 4, 8]" by code_simp
  from sizes_first_seen [OF h] hs
  have "distinct [8, 4 :: int] \<and> [8, 4] = rev (remdups (rev [8, 4, 8 :: int]))" by simp
  with h hs show ?thesis by blast
qed

subsection \<open>The sequential times\<close>

text \<open>
  C3, as the code has it: a line \<open>i\<close> that contains \<^verbatim>\<open>Sequential:\<close> has the window of the
  five lines \<open>i\<close> to \<open>i + 4\<close> (fewer at the end of the input), so the line itself and at
  most four lines after it. The first line of the window that holds a time gives the
  value that is appended, no line outside the window counts for that marker, and no
  second line of the window is used. The sequential times of a parsed input are exactly
  these values, in the order of the markers.
\<close>

theorem sequential_window:
  assumes "parse_lines lines = Inr d"
  shows "map Inr (sequential_times d) = timed_markers lines"
proof -
  from assms obtain st where st: "parse_loop lines 0 init_state = Inr st" and d: "d = data st"
    by (auto simp: parse_lines_def split: sum.splits)
  show ?thesis using parse_loop_times [OF st] d
    by (simp add: init_state_def timed_markers_def)
qed

theorem sequential_window_witness:
  "parse_lines [''Sequential:'', '''', '''', '''', ''Time: 3 ms'', ''Time: 4 ms'']
     = Inr \<lparr>sizes = [], sequential_times = [3], parallel_results = []\<rparr>
   \<and> timed_markers [''Sequential:'', '''', '''', '''', ''Time: 3 ms'', ''Time: 4 ms'']
     = [Inr 3]"
proof -
  let ?ls = "[''Sequential:'', '''', '''', '''', ''Time: 3 ms'', ''Time: 4 ms'']"
  have h: "parse_lines ?ls = Inr \<lparr>sizes = [], sequential_times = [3], parallel_results = []\<rparr>"
    by code_simp
  from sequential_window [OF h] have "timed_markers ?ls = [Inr 3]" by simp
  with h show ?thesis by blast
qed

text \<open>
  The claim as the specification words it fails: a time on the fifth line after the
  marker is not found, and a time on the marker's own line is taken before one on a
  line after it.
\<close>

theorem sequential_window_counterexample:
  "parse_lines [''Sequential:'', '''', '''', '''', '''', ''Time: 3 ms'']
     = Inr \<lparr>sizes = [], sequential_times = [], parallel_results = []\<rparr>
   \<and> parse_lines [''Sequential: Time: 1 ms'', ''Time: 2 ms'']
     = Inr \<lparr>sizes = [], sequential_times = [1], parallel_results = []\<rparr>"
  by code_simp

subsection \<open>Rows before the first size\<close>

text \<open>
  C9: when no line of a first part of the input announces a size, the rows of that part
  leave no trace: the parallel results (and the sizes) of the whole input are those of
  the input without that part.
\<close>

theorem rows_before_header_discarded:
  assumes "\<forall>l \<in> set pre. size_header l = None"
    and "parse_lines (pre @ post) = Inr d"
  shows "\<exists>d'. parse_lines post = Inr d' \<and>
           parallel_results d' = parallel_results d \<and> sizes d' = sizes d"
proof -
  from assms(2) obtain st where
    st: "parse_loop (pre @ post) 0 init_state = Inr st" and d: "d = data st"
    by (auto simp: parse_lines_def split: sum.splits)
  have "\<forall>j<length pre. size_header ((pre @ post) ! j) = None"
    using assms(1) by (simp add: nth_append)
  from parse_loop_skip [OF _ this st] obtain stk where
    lk: "parse_loop (pre @ post) (length pre) stk = Inr st" and tk: "same_tables stk init_state"
    by (auto simp: init_state_def)
  from parse_loop_sim [OF lk tk] obtain st2 where
    l2: "parse_loop (pre @ post) (length pre) init_state = Inr st2" and t2: "same_tables st st2"
    by blast
  have "parse_loop post 0 init_state = Inr st2"
    using l2 parse_loop_shift [of pre post 0 init_state] by simp
  then show ?thesis using t2 d by (simp add: parse_lines_def same_tables_def)
qed

theorem rows_before_header_discarded_witness:
  "size_header ''  2   5.0   2.00   100.0%'' = None
   \<and> parse_lines ([''  2   5.0   2.00   100.0%''] @
                  [''Matrix size: 4 x 4'', ''  4   3.0   3.00   75.0%''])
     = Inr \<lparr>sizes = [4], sequential_times = [], parallel_results = [(4, [(4, 3)])]\<rparr>
   \<and> parse_lines [''Matrix size: 4 x 4'', ''  4   3.0   3.00   75.0%'']
     = Inr \<lparr>sizes = [4], sequential_times = [], parallel_results = [(4, [(4, 3)])]\<rparr>"
proof -
  let ?pre = "[''  2   5.0   2.00   100.0%'']"
  let ?post = "[''Matrix size: 4 x 4'', ''  4   3.0   3.00   75.0%'']"
  let ?d = "\<lparr>sizes = [4], sequential_times = [], parallel_results = [(4, [(4, 3)])]\<rparr>"
  have h0: "size_header ''  2   5.0   2.00   100.0%'' = None" by code_simp
  then have h1: "\<forall>l \<in> set ?pre. size_header l = None" by simp
  have h2: "parse_lines (?pre @ ?post) = Inr ?d" by code_simp
  from rows_before_header_discarded [OF h1 h2] obtain d' where
    "parse_lines ?post = Inr d'" and "parallel_results d' = parallel_results ?d"
    and "sizes d' = sizes ?d"
    by blast
  moreover have "parse_lines ?post = Inr ?d" by code_simp
  ultimately show ?thesis using h0 h2 by blast
qed

subsection \<open>The number of sequential times\<close>




subsection \<open>Malformed numbers\<close>

text \<open>
  C4: a line that announces no size, does not contain \<^verbatim>\<open>Sequential:\<close> and is no row of
  the table leaves the state of the loop as it is (\<open>unclassified_line_ignored\<close>). But
  parsing does not return a dataset for every input: the class \<^verbatim>\<open>[\d.]\<close> captures
  \<^verbatim>\<open>1.2.3\<close>, on which \<^verbatim>\<open>float\<close> raises \<^verbatim>\<open>ValueError\<close>, and neither \<^verbatim>\<open>parse_output\<close> nor
  \<^verbatim>\<open>main\<close> catches it.
\<close>

theorem malformed_time_raises:
  "parse_output ''Sequential: Time: 1.2.3 ms'' = Inl ValueError
   \<and> main ''Sequential: Time: 1.2.3 ms'' = ([], Some ValueError)
   \<and> parse_output (''Matrix size: 4 x 4'' @ [CHR 0x0A] @ ''  2   ...   2.00   100.0%'')
     = Inl ValueError"
  by code_simp

subsection \<open>Speedup and efficiency\<close>




text \<open>
  C1: for a pair with no recorded parallel time the summary table shows the speedup 0,
  as it reads the time with the default 0 (\<open>absent_pair_values\<close>). The three loops of
  the charts read it with the default 1, so their speedup is the sequential time itself
  and their efficiency that time over the thread count, times 100. On an input with the
  sizes 4 and 8 and one row, for 2 threads and size 4: the pair (8, 2) has the speedup 0
  in the table, 20 in the speedup chart and in the heat matrix, and the efficiency 1000.
\<close>

theorem missing_pair_in_charts:
  "main (''Matrix size: 4 x 4'' @ [CHR 0x0A] @ ''Sequential: Time: 10.0 ms'' @ [CHR 0x0A] @
         ''  2   5.0   2.00   100.0%'' @ [CHR 0x0A] @ ''Matrix size: 8 x 8'' @ [CHR 0x0A] @
         ''Sequential: Time: 20.0 ms'')
     = ([SummaryTable [(4, 10, [(5, 2)]), (8, 20, [(0, 0)])],
         Print (CHR 0x0A # ''Generating visualizations...''),
         Visualizations
           \<lparr>bar_times = [[5, 0]], speedup_lines = [[2], [20]],
            efficiency_lines = [[100], [1000]], speedup_matrix = [[2], [20]]\<rparr>],
        None)"
  by code_simp

subsection \<open>A size without a sequential time\<close>

text \<open>
  C2, as the code has it: no function puts 0 in the place of a sequential time that is
  missing. When there are fewer sequential times than sizes, \<^verbatim>\<open>print_summary_table\<close>
  raises \<^verbatim>\<open>IndexError\<close>, at the first size without one; and so does
  \<^verbatim>\<open>create_visualizations\<close> when a size without a sequential time meets a thread count
  whose parallel time for it is positive or not recorded.
\<close>

theorem missing_sequential_time:
  assumes "length (sequential_times d) < length (sizes d)"
  shows "print_summary_table d = Inl IndexError \<and>
         ((\<exists>idx threads inner.
              length (sequential_times d) \<le> idx \<and> idx < length (sizes d) \<and>
              map_of (parallel_results d) threads = Some inner \<and>
              0 < dict_get inner (sizes d ! idx) 1)
          \<longrightarrow> create_visualizations d = Inl IndexError)"
proof (intro conjI impI)
  let ?i = "length (sequential_times d)"
  have "(?i, sizes d ! ?i) \<in> set (enumerate_list (sizes d))"
    using assms by (rule enumerate_list_mem)
  moreover have "table_row d (?i, sizes d ! ?i) = Inl IndexError"
    by (simp add: table_row_def py_index_def)
  ultimately show "print_summary_table d = Inl IndexError"
    unfolding print_summary_table_def using table_row_error by (rule mapM_error)
next
  assume "\<exists>idx threads inner.
              length (sequential_times d) \<le> idx \<and> idx < length (sizes d) \<and>
              map_of (parallel_results d) threads = Some inner \<and>
              0 < dict_get inner (sizes d ! idx) 1"
  then obtain idx threads inner where
    i1: "length (sequential_times d) \<le> idx" and i2: "idx < length (sizes d)" and
    t: "map_of (parallel_results d) threads = Some inner" and
    p: "0 < dict_get inner (sizes d ! idx) 1"
    by blast
  have tc: "threads \<in> set (thread_counts d)" using t by (auto simp: thread_counts_iff)
  have "chart_speedup d idx (sizes d ! idx) threads = Inl IndexError"
    using t p i1 by (simp add: chart_speedup_def py_getitem_def speedup_expr_missing)
  with tc have "mapM (chart_speedup d idx (sizes d ! idx)) (thread_counts d) = Inl IndexError"
    using chart_speedup_error by (rule mapM_error)
  then have "(\<lambda>p. case p of (idx, sz) \<Rightarrow> mapM (chart_speedup d idx sz) (thread_counts d))
      (idx, sizes d ! idx) = Inl IndexError"
    by simp
  with enumerate_list_mem [OF i2] have "\<exists>e. per_pair chart_speedup d = Inl e"
    unfolding per_pair_def
    using mapM_fails [of "(idx, sizes d ! idx)" "enumerate_list (sizes d)"
        "\<lambda>p. case p of (idx, sz) \<Rightarrow> mapM (chart_speedup d idx sz) (thread_counts d)" IndexError]
    by blast
  then have "per_pair chart_speedup d = Inl IndexError"
    using per_pair_speedup_error by blast
  then show "create_visualizations d = Inl IndexError"
    using bars_ok [of d] by (auto simp: create_visualizations_def)
qed

theorem missing_sequential_time_witness:
  "length (sequential_times
       \<lparr>sizes = [4], sequential_times = [], parallel_results = [(2, [(4, 5)])]\<rparr>)
     < length (sizes \<lparr>sizes = [4], sequential_times = [], parallel_results = [(2, [(4, 5)])]\<rparr>)
   \<and> print_summary_table
       \<lparr>sizes = [4], sequential_times = [], parallel_results = [(2, [(4, 5)])]\<rparr>
     = Inl IndexError
   \<and> create_visualizations
       \<lparr>sizes = [4], sequential_times = [], parallel_results = [(2, [(4, 5)])]\<rparr>
     = Inl IndexError"
proof -
  let ?d = "\<lparr>sizes = [4], sequential_times = [], parallel_results = [(2, [(4, 5)])]\<rparr>"
  have h: "length (sequential_times ?d) < length (sizes ?d)" by simp
  have "length (sequential_times ?d) \<le> 0 \<and> 0 < length (sizes ?d) \<and>
      map_of (parallel_results ?d) 2 = Some [(4, 5)] \<and>
      0 < dict_get [(4 :: int, 5 :: rat)] (sizes ?d ! 0) 1"
    by (simp add: dict_get_def)
  then have ex: "\<exists>idx threads inner.
      length (sequential_times ?d) \<le> idx \<and> idx < length (sizes ?d) \<and>
      map_of (parallel_results ?d) threads = Some inner \<and>
      0 < dict_get inner (sizes ?d ! idx) 1"
    by blast
  from missing_sequential_time [OF h] ex
  have "print_summary_table ?d = Inl IndexError \<and> create_visualizations ?d = Inl IndexError"
    by blast
  with h show ?thesis by blast
qed

text \<open>
  The claim as the specification words it fails on the input with the lines
  \<^verbatim>\<open>Matrix size: 4 x 4\<close> and \<^verbatim>\<open>  2   5.0   2.00   100.0%\<close>: the dataset has a size and no
  sequential time, and both reports raise.
\<close>

theorem missing_sequential_time_counterexample:
  "parse_output (''Matrix size: 4 x 4'' @ [CHR 0x0A] @ ''  2   5.0   2.00   100.0%'')
     = Inr \<lparr>sizes = [4], sequential_times = [], parallel_results = [(2, [(4, 5)])]\<rparr>
   \<and> print_summary_table
       \<lparr>sizes = [4], sequential_times = [], parallel_results = [(2, [(4, 5)])]\<rparr>
     = Inl IndexError
   \<and> create_visualizations
       \<lparr>sizes = [4], sequential_times = [], parallel_results = [(2, [(4, 5)])]\<rparr>
     = Inl IndexError
   \<and> main (''Matrix size: 4 x 4'' @ [CHR 0x0A] @ ''  2   5.0   2.00   100.0%'')
     = ([], Some IndexError)"
  by code_simp

subsection \<open>No size in the input\<close>

text \<open>
  C8: when no line of the input announces a size and parsing returns its dataset, the
  list of sizes is empty and \<^verbatim>\<open>main\<close> prints the diagnostic and the raw input and
  nothing else (\<open>no_size_diagnostic\<close>). But parsing does not return for every such
  input: on the lines \<^verbatim>\<open>Sequential:\<close> and \<^verbatim>\<open>Time: . ms\<close> no size is announced,
  \<^verbatim>\<open>float\<close> raises \<^verbatim>\<open>ValueError\<close> on the captured \<^verbatim>\<open>.\<close>, and \<^verbatim>\<open>main\<close> ends with that
  exception without the diagnostic.
\<close>

theorem no_size_header_raises:
  "split_lines (''Sequential:'' @ [CHR 0x0A] @ ''Time: . ms'') = [''Sequential:'', ''Time: . ms'']
   \<and> size_header ''Sequential:'' = None
   \<and> size_header ''Time: . ms'' = None
   \<and> parse_output (''Sequential:'' @ [CHR 0x0A] @ ''Time: . ms'') = Inl ValueError
   \<and> main (''Sequential:'' @ [CHR 0x0A] @ ''Time: . ms'') = ([], Some ValueError)"
  by code_simp

end
